theory Spec2Isabelle
  imports Main
begin

section \<open>Data model (src/session/types.ts)\<close>

text \<open>
  A JavaScript \<^verbatim>\<open>Date\<close> is its time value, an integer number of milliseconds since
  the epoch. At run time a field declared \<^verbatim>\<open>Date\<close> holds either a \<^verbatim>\<open>Date\<close> object or,
  after \<^verbatim>\<open>JSON.parse\<close>, the ISO-8601 string that \<^verbatim>\<open>Date.prototype.toJSON\<close> wrote for
  it. Both forms are kept apart: \<open>DateObj t\<close> is the object with time value \<open>t\<close>,
  \<open>IsoString t\<close> is the string \<^verbatim>\<open>new Date(t).toISOString()\<close>. The text of the string is
  not modelled; ECMAScript guarantees that \<^verbatim>\<open>new Date(d.toISOString())\<close> has the time
  value of a valid \<^verbatim>\<open>d\<close>, which is what \<open>newDate\<close> below computes.
\<close>

datatype jsdate = DateObj int | IsoString int

datatype EventType = Terminal | File | Clipboard

datatype TaskStatus = pending | in_progress | completed

text \<open>Values of the metadata record: the watchers store booleans, numbers and strings.\<close>

datatype plain = PBool bool | PNum int | PStr string

record SessionEvent =
  id_event :: string
  timestamp :: jsdate
  type_event :: EventType
  content :: string
  metadata :: "(string \<times> plain) list option"

record Task =
  id_task :: string
  description_task :: string
  status :: TaskStatus
  createdAt_task :: jsdate
  completedAt :: "jsdate option"
  sessionId_task :: string

record Issue =
  id_issue :: string
  description_issue :: string
  resolution :: "string option"
  resolved :: bool
  sessionId_issue :: string
  createdAt_issue :: jsdate
  resolvedAt :: "jsdate option"

record SessionSummary =
  summary_text :: string
  tasksCompleted :: "string list"
  issuesResolved :: "Issue list"
  keyConversations :: "string list"
  filesModified :: "string list"

record Session =
  id_session :: string
  startTime :: jsdate
  endTime :: "jsdate option"
  workspacePath :: "string option"
  events :: "SessionEvent list"
  summary :: "SessionSummary option"
  tasks :: "Task list"
  issues :: "Issue list"
  isActive :: bool

section \<open>EventBuffer (src/session/eventBuffer.ts)\<close>

text \<open>
  The flush callback is a closure over state outside the buffer. That state is the type
  parameter \<open>'w\<close>; a callback maps the batch and the outer state to the new outer state,
  and every operation that may invoke it threads the outer state through.
\<close>

record 'w EventBuffer =
  buffer :: "SessionEvent list"
  maxSize :: int
  flushCallback :: "(SessionEvent list \<Rightarrow> 'w \<Rightarrow> 'w) option"

text \<open>The constructor; \<open>maxSize\<close> is 100 when the argument is left out.\<close>

definition newEventBuffer :: "int \<Rightarrow> 'w EventBuffer" where
  "newEventBuffer n = \<lparr>buffer = [], maxSize = n, flushCallback = None\<rparr>"

definition onFlush :: "(SessionEvent list \<Rightarrow> 'w \<Rightarrow> 'w) \<Rightarrow> 'w EventBuffer \<Rightarrow> 'w EventBuffer" where
  "onFlush callback b = b\<lparr>flushCallback := Some callback\<rparr>"

text \<open>\<open>flush\<close> returns the drained batch, the emptied buffer and the outer state.\<close>

definition flush :: "'w EventBuffer \<Rightarrow> 'w \<Rightarrow> SessionEvent list \<times> 'w EventBuffer \<times> 'w" where
  "flush b w =
     (let evs = buffer b;
          b' = b\<lparr>buffer := []\<rparr>
      in case flushCallback b of
           Some callback \<Rightarrow> if length evs > 0 then (evs, b', callback evs w) else (evs, b', w)
         | None \<Rightarrow> (evs, b', w))"

definition push :: "SessionEvent \<Rightarrow> 'w EventBuffer \<Rightarrow> 'w \<Rightarrow> 'w EventBuffer \<times> 'w" where
  "push event b w =
     (let b1 = b\<lparr>buffer := buffer b @ [event]\<rparr>
      in if int (length (buffer b1)) \<ge> maxSize b1
         then (case flush b1 w of (_, b2, w2) \<Rightarrow> (b2, w2))
         else (b1, w))"

definition getAll :: "'w EventBuffer \<Rightarrow> SessionEvent list" where
  "getAll b = buffer b"

definition size_buffer :: "'w EventBuffer \<Rightarrow> nat" where
  "size_buffer b = length (buffer b)"

definition clear :: "'w EventBuffer \<Rightarrow> 'w EventBuffer" where
  "clear b = b\<lparr>buffer := []\<rparr>"

text \<open>A run of \<open>push\<close> calls, in list order.\<close>

fun pushAll :: "SessionEvent list \<Rightarrow> 'w EventBuffer \<Rightarrow> 'w \<Rightarrow> 'w EventBuffer \<times> 'w" where
  "pushAll [] b w = (b, w)"
| "pushAll (e # es) b w = (case push e b w of (b', w') \<Rightarrow> pushAll es b' w')"

text \<open>An outer state that records every invocation of the callback with its batch.\<close>

definition recordBatch :: "SessionEvent list \<Rightarrow> SessionEvent list list \<Rightarrow> SessionEvent list list" where
  "recordBatch evs calls = calls @ [evs]"

section \<open>SessionManager (src/session/sessionManager.ts)\<close>

text \<open>
  What a call reads from its surroundings: the clock (\<^verbatim>\<open>new Date()\<close>, in milliseconds;
  a call runs to completion on the single JavaScript thread and every clock reading it
  takes is the one instant \<open>now\<close>), the string \<^verbatim>\<open>generateId()\<close> returns, the first
  workspace folder, the host's time zone, and the configured \<^verbatim>\<open>sessionTimeoutMinutes\<close>
  (\<^verbatim>\<open>getConfig()\<close>, default 10). The time zone is given by what \<^verbatim>\<open>setHours(0, 0, 0, 0)\<close>
  computes in it: \<open>startOfLocalDay\<close> maps an instant to the instant at which its local
  calendar day began, by the zone's own rules, whatever they are.
\<close>

record Ctx =
  now :: int
  generatedId :: string
  workspaceFolder :: "string option"
  startOfLocalDay :: "int \<Rightarrow> int"
  sessionTimeoutMinutes :: int

text \<open>
  \<open>sessionTimeoutTimer\<close> is the pending timeout: \<open>Some d\<close> when a timer is armed and due
  at instant \<open>d\<close>, \<open>None\<close> when no timer was created yet or the last one was cleared
  or has fired (\<^verbatim>\<open>clearTimeout\<close> on such a handle does nothing). Observers are
  registered by name; \<open>sessionEndCalls\<close> and \<open>eventCalls\<close> record every invocation of
  an observer with its argument, \<open>messages\<close> every notification shown. What an
  observer does with the session it is given (the extension saves, summarizes and
  exports it, after the call has returned) is not part of the manager.
\<close>

record SessionManager =
  currentSession :: "Session option"
  sessions :: "Session list"
  eventBuffer :: "Session option EventBuffer"
  lastActivityTime :: int
  sessionTimeoutTimer :: "int option"
  onSessionEndCallbacks :: "string list"
  onEventCallbacks :: "string list"
  sessionEndCalls :: "(string \<times> Session) list"
  eventCalls :: "(string \<times> SessionEvent) list"
  messages :: "string list"

text \<open>The closure the constructor registers with \<open>onFlush\<close>.\<close>

definition attributeToCurrent :: "SessionEvent list \<Rightarrow> Session option \<Rightarrow> Session option" where
  "attributeToCurrent evs cur =
     (case cur of None \<Rightarrow> None | Some s \<Rightarrow> Some (s\<lparr>events := events s @ evs\<rparr>))"

definition newSessionManager :: "int \<Rightarrow> SessionManager" where
  "newSessionManager t =
     \<lparr>currentSession = None, sessions = [],
      eventBuffer = onFlush attributeToCurrent (newEventBuffer 50),
      lastActivityTime = t, sessionTimeoutTimer = None,
      onSessionEndCallbacks = [], onEventCallbacks = [],
      sessionEndCalls = [], eventCalls = [], messages = []\<rparr>"

text \<open>The statement \<^verbatim>\<open>this.eventBuffer.flush()\<close>, its result dropped.\<close>

definition flushEventBuffer :: "SessionManager \<Rightarrow> SessionManager" where
  "flushEventBuffer m =
     (case flush (eventBuffer m) (currentSession m) of
        (_, b', cur') \<Rightarrow> m\<lparr>eventBuffer := b', currentSession := cur'\<rparr>)"

text \<open>Node runs a timeout whose delay is below 1 or above \<open>2\<^sup>3\<^sup>1 - 1\<close> after 1 ms.\<close>

definition timerDelay :: "int \<Rightarrow> int" where
  "timerDelay ms = (if ms < 1 \<or> ms > 2147483647 then 1 else ms)"

definition resetSessionTimeout :: "Ctx \<Rightarrow> SessionManager \<Rightarrow> SessionManager" where
  "resetSessionTimeout ctx m =
     (let timeoutMs = sessionTimeoutMinutes ctx * 60 * 1000
      in m\<lparr>sessionTimeoutTimer := Some (now ctx + timerDelay timeoutMs)\<rparr>)"

text \<open>
  After the flush the current session is still set: the callback of the constructor
  never clears it. The \<open>None\<close> branch after the flush stands for a buffer wired to a
  callback that clears it, where the assignment to \<^verbatim>\<open>this.currentSession.endTime\<close> would
  raise; the class never wires its buffer so, and the properties below are about
  managers wired as the constructor does (\<open>wired\<close>).
\<close>

definition endSession :: "Ctx \<Rightarrow> SessionManager \<Rightarrow> Session option \<times> SessionManager" where
  "endSession ctx m =
     (case currentSession m of
        None \<Rightarrow> (None, m)
      | Some _ \<Rightarrow>
          (let m1 = flushEventBuffer m
           in case currentSession m1 of
                None \<Rightarrow> (None, m1)
              | Some s1 \<Rightarrow>
                  (let endedSession = s1\<lparr>endTime := Some (DateObj (now ctx)), isActive := False\<rparr>;
                       m2 = m1\<lparr>sessions := sessions m1 @ [endedSession],
                               sessionTimeoutTimer := None,
                               sessionEndCalls := sessionEndCalls m1 @
                                  map (\<lambda>cb. (cb, endedSession)) (onSessionEndCallbacks m1),
                               messages := messages m1 @ [''Log Close: Session ended''],
                               currentSession := None\<rparr>
                   in (Some endedSession, m2))))"

definition startSession :: "Ctx \<Rightarrow> SessionManager \<Rightarrow> Session \<times> SessionManager" where
  "startSession ctx m =
     (let m1 = (case currentSession m of
                  Some s \<Rightarrow> if isActive s then snd (endSession ctx m) else m
                | None \<Rightarrow> m);
          new = \<lparr>id_session = generatedId ctx, startTime = DateObj (now ctx), endTime = None,
                 workspacePath = workspaceFolder ctx, events = [], summary = None,
                 tasks = [], issues = [], isActive = True\<rparr>;
          m2 = m1\<lparr>currentSession := Some new, lastActivityTime := now ctx\<rparr>;
          m3 = resetSessionTimeout ctx m2
      in (new, m3\<lparr>messages := messages m3 @ [''Log Close: Session started'']\<rparr>))"

definition addEvent :: "Ctx \<Rightarrow> SessionEvent \<Rightarrow> SessionManager \<Rightarrow> SessionManager" where
  "addEvent ctx event m =
     (let m1 = (case currentSession m of None \<Rightarrow> snd (startSession ctx m) | Some _ \<Rightarrow> m);
          m2 = resetSessionTimeout ctx (m1\<lparr>lastActivityTime := now ctx\<rparr>)
      in case push event (eventBuffer m2) (currentSession m2) of
           (b', cur') \<Rightarrow>
             m2\<lparr>eventBuffer := b', currentSession := cur',
                eventCalls := eventCalls m2 @ map (\<lambda>cb. (cb, event)) (onEventCallbacks m2)\<rparr>)"

text \<open>
  The event loop runs the timeout's callback once the clock has reached the instant
  the timer is due; before that, and with no timer armed, nothing happens.
\<close>

definition sessionTimeoutFires :: "Ctx \<Rightarrow> SessionManager \<Rightarrow> SessionManager" where
  "sessionTimeoutFires ctx m =
     (case sessionTimeoutTimer m of
        None \<Rightarrow> m
      | Some due \<Rightarrow>
          if now ctx < due then m
          else (let m1 = m\<lparr>sessionTimeoutTimer := None\<rparr>
                in case currentSession m1 of
                     None \<Rightarrow> m1
                   | Some s \<Rightarrow>
                       if isActive s
                       then snd (endSession ctx
                              (m1\<lparr>messages := messages m1 @
                                    [''Log Close: Session ended due to inactivity'']\<rparr>))
                       else m1))"

definition getCurrentSession :: "SessionManager \<Rightarrow> Session option" where
  "getCurrentSession m = currentSession m"

definition getAllSessions :: "SessionManager \<Rightarrow> Session list" where
  "getAllSessions m = sessions m"

text \<open>
  \<^verbatim>\<open>s.startTime >= today\<close> compares time values; a start time that is still a string
  converts to \<^verbatim>\<open>NaN\<close> and the comparison is false.
\<close>

definition notBefore :: "jsdate \<Rightarrow> int \<Rightarrow> bool" where
  "notBefore d today = (case d of DateObj t \<Rightarrow> t \<ge> today | IsoString _ \<Rightarrow> False)"

definition getTodaySessions :: "Ctx \<Rightarrow> SessionManager \<Rightarrow> Session list" where
  "getTodaySessions ctx m =
     (let today = startOfLocalDay ctx (now ctx)
      in filter (\<lambda>s. notBefore (startTime s) today) (sessions m))"

definition onSessionEnd :: "string \<Rightarrow> SessionManager \<Rightarrow> SessionManager" where
  "onSessionEnd callback m = m\<lparr>onSessionEndCallbacks := onSessionEndCallbacks m @ [callback]\<rparr>"

definition onEvent :: "string \<Rightarrow> SessionManager \<Rightarrow> SessionManager" where
  "onEvent callback m = m\<lparr>onEventCallbacks := onEventCallbacks m @ [callback]\<rparr>"

text \<open>The arguments of \<open>addTask\<close> and \<open>addIssue\<close>: a task or issue without id, creation
  time and owner.\<close>

record NewTask =
  task_description :: string
  task_status :: TaskStatus
  task_completedAt :: "jsdate option"

record NewIssue =
  issue_description :: string
  issue_resolution :: "string option"
  issue_resolved :: bool
  issue_resolvedAt :: "jsdate option"

definition addTask :: "Ctx \<Rightarrow> NewTask \<Rightarrow> SessionManager \<Rightarrow> Task option \<times> SessionManager" where
  "addTask ctx task m =
     (case currentSession m of
        None \<Rightarrow> (None, m)
      | Some cur \<Rightarrow>
          (let newTask = \<lparr>id_task = generatedId ctx, description_task = task_description task,
                          status = task_status task, createdAt_task = DateObj (now ctx),
                          completedAt = task_completedAt task,
                          sessionId_task = id_session cur\<rparr>
           in (Some newTask, m\<lparr>currentSession := Some (cur\<lparr>tasks := tasks cur @ [newTask]\<rparr>)\<rparr>)))"

definition addIssue :: "Ctx \<Rightarrow> NewIssue \<Rightarrow> SessionManager \<Rightarrow> Issue option \<times> SessionManager" where
  "addIssue ctx issue m =
     (case currentSession m of
        None \<Rightarrow> (None, m)
      | Some cur \<Rightarrow>
          (let newIssue = \<lparr>id_issue = generatedId ctx, description_issue = issue_description issue,
                           resolution = issue_resolution issue, resolved = issue_resolved issue,
                           sessionId_issue = id_session cur, createdAt_issue = DateObj (now ctx),
                           resolvedAt = issue_resolvedAt issue\<rparr>
           in (Some newIssue, m\<lparr>currentSession := Some (cur\<lparr>issues := issues cur @ [newIssue]\<rparr>)\<rparr>)))"

text \<open>\<^verbatim>\<open>find\<close> gives the first session of the history with the id.\<close>

fun updateFirst :: "string \<Rightarrow> SessionSummary option \<Rightarrow> Session list \<Rightarrow> Session list" where
  "updateFirst sid sm [] = []"
| "updateFirst sid sm (s # ss) =
     (if id_session s = sid then s\<lparr>summary := sm\<rparr> # ss else s # updateFirst sid sm ss)"

definition updateSummary :: "string \<Rightarrow> SessionSummary option \<Rightarrow> SessionManager \<Rightarrow> SessionManager" where
  "updateSummary sid sm m =
     (let m1 = m\<lparr>sessions := updateFirst sid sm (sessions m)\<rparr>
      in case currentSession m1 of
           None \<Rightarrow> m1
         | Some cur \<Rightarrow>
             if id_session cur = sid then m1\<lparr>currentSession := Some (cur\<lparr>summary := sm\<rparr>)\<rparr> else m1)"

definition loadSessions :: "Session list \<Rightarrow> SessionManager \<Rightarrow> SessionManager" where
  "loadSessions ss m = m\<lparr>sessions := ss\<rparr>"

definition dispose :: "Ctx \<Rightarrow> SessionManager \<Rightarrow> SessionManager" where
  "dispose ctx m =
     (let m1 = m\<lparr>sessionTimeoutTimer := None\<rparr>
      in case currentSession m1 of
           None \<Rightarrow> m1
         | Some s \<Rightarrow> if isActive s then snd (endSession ctx m1) else m1)"

text \<open>A run of \<open>addEvent\<close> calls, each with its own surroundings, in list order.\<close>

fun addEvents :: "(Ctx \<times> SessionEvent) list \<Rightarrow> SessionManager \<Rightarrow> SessionManager" where
  "addEvents [] m = m"
| "addEvents ((ctx, e) # ces) m = addEvents ces (addEvent ctx e m)"

text \<open>Every session the manager holds: the history and the current one.\<close>

definition allSessions :: "SessionManager \<Rightarrow> Session list" where
  "allSessions m = sessions m @ (case currentSession m of None \<Rightarrow> [] | Some s \<Rightarrow> [s])"

text \<open>A manager whose buffer is set up as the constructor leaves it.\<close>

definition wired :: "SessionManager \<Rightarrow> bool" where
  "wired m \<longleftrightarrow> flushCallback (eventBuffer m) = Some attributeToCurrent \<and> maxSize (eventBuffer m) = 50"

section \<open>LocalDb (src/storage/localDb.ts)\<close>

text \<open>
  \<^verbatim>\<open>JSON.parse(JSON.stringify(x))\<close>: a \<^verbatim>\<open>Date\<close> is written by \<^verbatim>\<open>toJSON\<close> as its ISO
  string and read back as that string; strings, booleans, integers, arrays and plain
  objects come back as they were; a property that is \<^verbatim>\<open>undefined\<close> is left out and
  reads as \<^verbatim>\<open>undefined\<close> again.
\<close>

definition jsonDate :: "jsdate \<Rightarrow> jsdate" where
  "jsonDate d = (case d of DateObj t \<Rightarrow> IsoString t | IsoString t \<Rightarrow> IsoString t)"

definition jsonEvent :: "SessionEvent \<Rightarrow> SessionEvent" where
  "jsonEvent e = e\<lparr>timestamp := jsonDate (timestamp e)\<rparr>"

definition jsonTask :: "Task \<Rightarrow> Task" where
  "jsonTask t = t\<lparr>createdAt_task := jsonDate (createdAt_task t),
                  completedAt := map_option jsonDate (completedAt t)\<rparr>"

definition jsonIssue :: "Issue \<Rightarrow> Issue" where
  "jsonIssue i = i\<lparr>createdAt_issue := jsonDate (createdAt_issue i),
                   resolvedAt := map_option jsonDate (resolvedAt i)\<rparr>"

definition jsonSummary :: "SessionSummary \<Rightarrow> SessionSummary" where
  "jsonSummary sm = sm\<lparr>issuesResolved := map jsonIssue (issuesResolved sm)\<rparr>"

definition jsonSession :: "Session \<Rightarrow> Session" where
  "jsonSession s = s\<lparr>startTime := jsonDate (startTime s),
                     endTime := map_option jsonDate (endTime s),
                     events := map jsonEvent (events s),
                     summary := map_option jsonSummary (summary s),
                     tasks := map jsonTask (tasks s),
                     issues := map jsonIssue (issues s)\<rparr>"

text \<open>\<^verbatim>\<open>new Date(x)\<close> for \<open>x\<close> an ISO string or a \<^verbatim>\<open>Date\<close>.\<close>

definition newDate :: "jsdate \<Rightarrow> jsdate" where
  "newDate d = (case d of DateObj t \<Rightarrow> DateObj t | IsoString t \<Rightarrow> DateObj t)"

definition reviveSession :: "Session \<Rightarrow> Session" where
  "reviveSession raw =
     raw\<lparr>startTime := newDate (startTime raw),
         endTime := map_option newDate (endTime raw),
         events := map (\<lambda>e. e\<lparr>timestamp := newDate (timestamp e)\<rparr>) (events raw),
         tasks := map (\<lambda>t. t\<lparr>createdAt_task := newDate (createdAt_task t),
                               completedAt := map_option newDate (completedAt t)\<rparr>) (tasks raw),
         issues := map (\<lambda>i. i\<lparr>createdAt_issue := newDate (createdAt_issue i),
                                resolvedAt := map_option newDate (resolvedAt i)\<rparr>) (issues raw)\<rparr>"

text \<open>
  The data file: absent, not parseable, or the text of a document \<^verbatim>\<open>{ sessions: [...] }\<close>,
  given by what \<^verbatim>\<open>JSON.parse\<close> reads from it. \<open>writable\<close> says whether
  \<^verbatim>\<open>writeFileSync\<close> succeeds; a failed write is logged and leaves the file as it was.
\<close>

datatype dataFile = NoFile | Unparseable | Document "Session list"

record FileSystem =
  dataFile :: dataFile
  writable :: bool

record LocalDb =
  data :: "Session list"

definition load :: "FileSystem \<Rightarrow> Session list" where
  "load fs =
     (case dataFile fs of
        Document parsed \<Rightarrow> map reviveSession parsed
      | Unparseable \<Rightarrow> []
      | NoFile \<Rightarrow> [])"

definition newLocalDb :: "FileSystem \<Rightarrow> LocalDb" where
  "newLocalDb fs = \<lparr>data = load fs\<rparr>"

definition save :: "LocalDb \<Rightarrow> FileSystem \<Rightarrow> FileSystem" where
  "save db fs = (if writable fs then fs\<lparr>dataFile := Document (map jsonSession (data db))\<rparr> else fs)"

text \<open>\<^verbatim>\<open>findIndex\<close> gives the first session with the id; it is replaced, or the session
  is appended when there is none.\<close>

fun upsert :: "Session \<Rightarrow> Session list \<Rightarrow> Session list" where
  "upsert s [] = [s]"
| "upsert s (x # xs) = (if id_session x = id_session s then s # xs else x # upsert s xs)"

definition saveSession :: "Session \<Rightarrow> LocalDb \<Rightarrow> FileSystem \<Rightarrow> LocalDb \<times> FileSystem" where
  "saveSession session db fs =
     (let db' = db\<lparr>data := upsert session (data db)\<rparr> in (db', save db' fs))"

definition getSession :: "string \<Rightarrow> LocalDb \<Rightarrow> Session option" where
  "getSession sid db = find (\<lambda>s. id_session s = sid) (data db)"

text \<open>Saving a session and opening the store again on the file that was written.\<close>

definition saveAndReload :: "Session \<Rightarrow> LocalDb \<Rightarrow> FileSystem \<Rightarrow> LocalDb" where
  "saveAndReload session db fs = newLocalDb (snd (saveSession session db fs))"

text \<open>A session as the running program builds it: every temporal field a \<^verbatim>\<open>Date\<close>.\<close>

definition isDateObj :: "jsdate \<Rightarrow> bool" where
  "isDateObj d = (case d of DateObj _ \<Rightarrow> True | IsoString _ \<Rightarrow> False)"

definition optDateObj :: "jsdate option \<Rightarrow> bool" where
  "optDateObj d = (case d of None \<Rightarrow> True | Some x \<Rightarrow> isDateObj x)"

definition issueDates :: "Issue \<Rightarrow> bool" where
  "issueDates i \<longleftrightarrow> isDateObj (createdAt_issue i) \<and> optDateObj (resolvedAt i)"

definition taskDates :: "Task \<Rightarrow> bool" where
  "taskDates t \<longleftrightarrow> isDateObj (createdAt_task t) \<and> optDateObj (completedAt t)"

definition sessionDates :: "Session \<Rightarrow> bool" where
  "sessionDates s \<longleftrightarrow>
     isDateObj (startTime s) \<and> optDateObj (endTime s)
     \<and> list_all (\<lambda>e. isDateObj (timestamp e)) (events s)
     \<and> list_all taskDates (tasks s)
     \<and> list_all issueDates (issues s)
     \<and> (case summary s of None \<Rightarrow> True | Some sm \<Rightarrow> list_all issueDates (issuesResolved sm))"

text \<open>Whether the summary of a session lists a resolved issue.\<close>

definition summaryHasIssues :: "Session \<Rightarrow> bool" where
  "summaryHasIssues s = (case summary s of None \<Rightarrow> False | Some sm \<Rightarrow> issuesResolved sm \<noteq> [])"

section \<open>GitSyncer (src/storage/gitSyncer.ts)\<close>

text \<open>
  The version-control collaborator is given by which of its commands fail and how many
  changed files \<^verbatim>\<open>status()\<close> reports. A call of a command is recorded in a trace, with
  the notifications shown. An action takes the trace so far and returns either the
  exception it raised or its value, with the extended trace.
\<close>

datatype GitCmd = Status | Add | Commit | PullRebase | Push | PushSetUpstream

datatype effect = Git GitCmd | ShowInformation string | ShowWarning string | WithProgress string

datatype exn = GitError GitCmd

record GitWorld =
  fails :: "GitCmd \<Rightarrow> bool"
  changedFiles :: nat

record GitSyncer =
  hasGit :: bool
  isInitialized :: bool

type_synonym 'a action = "effect list \<Rightarrow> (exn + 'a) \<times> effect list"

definition ret :: "'a \<Rightarrow> 'a action" where
  "ret x tr = (Inr x, tr)"

definition bind :: "'a action \<Rightarrow> ('a \<Rightarrow> 'b action) \<Rightarrow> 'b action" where
  "bind act f tr = (case act tr of (Inl e, tr') \<Rightarrow> (Inl e, tr') | (Inr x, tr') \<Rightarrow> f x tr')"

definition tryCatch :: "'a action \<Rightarrow> (exn \<Rightarrow> 'a action) \<Rightarrow> 'a action" where
  "tryCatch act handler tr = (case act tr of (Inl e, tr') \<Rightarrow> handler e tr' | (Inr x, tr') \<Rightarrow> (Inr x, tr'))"

definition git :: "GitWorld \<Rightarrow> GitCmd \<Rightarrow> unit action" where
  "git w c tr = (if fails w c then Inl (GitError c) else Inr (), tr @ [Git c])"

definition gitStatus :: "GitWorld \<Rightarrow> nat action" where
  "gitStatus w tr = (if fails w Status then Inl (GitError Status) else Inr (changedFiles w), tr @ [Git Status])"

definition showEffect :: "effect \<Rightarrow> unit action" where
  "showEffect x tr = (Inr (), tr @ [x])"

definition sync :: "GitSyncer \<Rightarrow> GitWorld \<Rightarrow> bool action" where
  "sync g w =
     (if \<not> hasGit g \<or> \<not> isInitialized g then ret False
      else
        tryCatch
          (bind (gitStatus w) (\<lambda>files.
             if files = 0 then ret True
             else
               bind (git w Add) (\<lambda>_.
               bind (git w Commit) (\<lambda>_.
               bind (tryCatch (git w PullRebase) (\<lambda>pullError. ret ())) (\<lambda>_.
               tryCatch
                 (bind (git w Push) (\<lambda>_.
                  bind (showEffect (ShowInformation ''Log Close: Synced to GitHub'')) (\<lambda>_.
                  ret True)))
                 (\<lambda>pushError.
                    tryCatch
                      (bind (git w PushSetUpstream) (\<lambda>_. ret True))
                      (\<lambda>_. bind (showEffect (ShowWarning
                               ''Log Close: Could not push to GitHub. Check your repository settings.''))
                             (\<lambda>_. ret False))))))))
          (\<lambda>error. ret False))"

text \<open>
  \<open>forceSync\<close> hands the task that runs \<open>sync\<close> to \<^verbatim>\<open>withProgress\<close>, which starts it, and
  returns \<^verbatim>\<open>true\<close> without waiting for the task or reading its result.
\<close>

definition forceSync :: "GitSyncer \<Rightarrow> GitWorld \<Rightarrow> bool action" where
  "forceSync g w =
     bind (showEffect (WithProgress ''Log Close: Syncing to GitHub...'')) (\<lambda>_.
       (\<lambda>tr. case sync g w tr of (_, tr') \<Rightarrow> (Inr True, tr')))"

text \<open>How often a command was run in a trace.\<close>

definition timesRun :: "GitCmd \<Rightarrow> effect list \<Rightarrow> nat" where
  "timesRun c tr = length (filter (\<lambda>x. x = Git c) tr)"

section \<open>Notions used by the properties\<close>

text \<open>The events a manager has taken in for its current session: those already in the
  session's list, then those still waiting in the buffer.\<close>

definition attributed :: "SessionManager \<Rightarrow> SessionEvent list" where
  "attributed m =
     (case currentSession m of None \<Rightarrow> [] | Some s \<Rightarrow> events s) @ buffer (eventBuffer m)"

text \<open>No session of the history is active, and a current session is.\<close>

definition lifecycleInv :: "SessionManager \<Rightarrow> bool" where
  "lifecycleInv m \<longleftrightarrow>
     list_all (\<lambda>s. \<not> isActive s) (sessions m)
     \<and> (case currentSession m of None \<Rightarrow> True | Some s \<Rightarrow> isActive s)"

text \<open>
  The today-sessions query as the specification words it: the sessions of the history
  whose start lies in the current local calendar day, from local midnight (included) to
  24 hours later (excluded).
\<close>

definition withinDay :: "jsdate \<Rightarrow> int \<Rightarrow> bool" where
  "withinDay d midnight =
     (case d of DateObj t \<Rightarrow> midnight \<le> t \<and> t < midnight + 86400000 | IsoString _ \<Rightarrow> False)"

definition todaySessions_spec :: "Ctx \<Rightarrow> SessionManager \<Rightarrow> Session list" where
  "todaySessions_spec ctx m =
     filter (\<lambda>s. withinDay (startTime s) (startOfLocalDay ctx (now ctx))) (sessions m)"

section \<open>Sample values\<close>

definition sampleEvent :: "string \<Rightarrow> SessionEvent" where
  "sampleEvent i =
     \<lparr>id_event = i, timestamp = DateObj 1700000000000, type_event = File,
      content = ''saved'', metadata = Some [(''fileExtension'', PStr ''ts'')]\<rparr>"

text \<open>The zone UTC, which has no offset and no change of offset: a local day begins at
  each multiple of 24 hours.\<close>

definition utcMidnight :: "int \<Rightarrow> int" where
  "utcMidnight t = t - t mod 86400000"

definition sampleCtx :: "int \<Rightarrow> Ctx" where
  "sampleCtx t =
     \<lparr>now = t, generatedId = ''1700000000000-abc'', workspaceFolder = Some ''/work'',
      startOfLocalDay = utcMidnight, sessionTimeoutMinutes = 10\<rparr>"

definition sampleSession :: "string \<Rightarrow> int \<Rightarrow> Session" where
  "sampleSession i t =
     \<lparr>id_session = i, startTime = DateObj t, endTime = Some (DateObj (t + 1000)),
      workspacePath = None, events = [], summary = None, tasks = [], issues = [],
      isActive = False\<rparr>"

definition sampleIssue :: Issue where
  "sampleIssue =
     \<lparr>id_issue = ''issue-1700000000500'', description_issue = ''build failed'',
      resolution = Some ''fixed import'', resolved = True, sessionId_issue = ''s1'',
      createdAt_issue = DateObj 1700000000500, resolvedAt = Some (DateObj 1700000000500)\<rparr>"

definition summarizedSession :: Session where
  "summarizedSession =
     (sampleSession ''s1'' 1700000000000)
       \<lparr>summary := Some \<lparr>summary_text = ''work'', tasksCompleted = [],
                          issuesResolved = [sampleIssue], keyConversations = [],
                          filesModified = []\<rparr>\<rparr>"

definition emptyDisk :: FileSystem where
  "emptyDisk = \<lparr>dataFile = NoFile, writable = True\<rparr>"

definition readySyncer :: GitSyncer where
  "readySyncer = \<lparr>hasGit = True, isInitialized = True\<rparr>"

definition pushRejected :: GitWorld where
  "pushRejected = \<lparr>fails = (\<lambda>c. c = Push \<or> c = PushSetUpstream), changedFiles = 1\<rparr>"

section \<open>EventBuffer: batching\<close>

lemma flush_empty: "buffer b = [] \<Longrightarrow> flush b w = ([], b, w)"
  by (simp add: flush_def Let_def split: option.splits)

lemma push_below_cap:
  "int (length (buffer b)) + 1 < maxSize b \<Longrightarrow> push e b w = (b\<lparr>buffer := buffer b @ [e]\<rparr>, w)"
  by (simp add: push_def Let_def)

lemma push_reaches_cap:
  "flushCallback b = Some cb \<Longrightarrow> maxSize b \<le> int (length (buffer b)) + 1 \<Longrightarrow>
   push e b w = (b\<lparr>buffer := []\<rparr>, cb (buffer b @ [e]) w)"
  by (simp add: push_def flush_def Let_def)

lemma pushAll_below_cap:
  "int (length (buffer b) + length es) < maxSize b \<Longrightarrow>
   pushAll es b w = (b\<lparr>buffer := buffer b @ es\<rparr>, w)"
proof (induction es arbitrary: b)
  case Nil
  then show ?case by simp
next
  case (Cons e es)
  let ?b1 = "b\<lparr>buffer := buffer b @ [e]\<rparr>"
  have step: "push e b w = (?b1, w)"
    using Cons.prems by (simp add: push_below_cap)
  have "int (length (buffer ?b1) + length es) < maxSize ?b1"
    using Cons.prems by simp
  from Cons.IH[OF this] step show ?case by simp
qed

lemma pushAll_snoc:
  "pushAll (xs @ [e]) b w = (case pushAll xs b w of (b', w') \<Rightarrow> push e b' w')"
  by (induction xs arbitrary: b w) (auto split: prod.splits)

lemma pushAll_fills_buffer:
  assumes cb: "flushCallback b = Some cb"
    and len: "int (length (buffer b) + length es) = maxSize b"
    and ne: "es \<noteq> []"
  shows "pushAll es b w = (b\<lparr>buffer := []\<rparr>, cb (buffer b @ es) w)"
proof -
  obtain xs e where es: "es = xs @ [e]"
    using ne by (cases es rule: rev_cases) auto
  have "int (length (buffer b) + length xs) < maxSize b"
    using len es by simp
  then have before: "pushAll xs b w = (b\<lparr>buffer := buffer b @ xs\<rparr>, w)"
    by (rule pushAll_below_cap)
  have last: "push e (b\<lparr>buffer := buffer b @ xs\<rparr>) w = (b\<lparr>buffer := []\<rparr>, cb ((buffer b @ xs) @ [e]) w)"
    using push_reaches_cap[of "b\<lparr>buffer := buffer b @ xs\<rparr>" cb e w] cb len es by simp
  show ?thesis
    unfolding es pushAll_snoc before using last by simp
qed

text \<open>
  Claim C4. A buffer that is empty, has a flush callback and a cap \<open>maxSize\<close> of at least
  one is pushed to \<open>maxSize\<close> times. The callback, which here records its invocations, has
  then been invoked exactly once, with the pushed events in push order, and the buffer
  is empty again; after any smaller number of pushes it has not been invoked. A flush of
  the empty buffer returns the empty batch and invokes no callback.
\<close>

theorem push_maxSize_times_one_flush:
  assumes "flushCallback b = Some recordBatch"
    and "buffer b = []"
    and "int (length es) = maxSize b"
    and "0 < maxSize b"
  shows "pushAll es b calls = (b, calls @ [es])
       \<and> (\<forall>k < length es. pushAll (take k es) b calls = (b\<lparr>buffer := take k es\<rparr>, calls))
       \<and> flush b calls = ([], b, calls)"
proof (intro conjI allI impI)
  have ne: "es \<noteq> []"
    using assms(3,4) by auto
  show "pushAll es b calls = (b, calls @ [es])"
    using pushAll_fills_buffer[of b recordBatch es calls] assms ne by (simp add: recordBatch_def)
next
  fix k
  assume "k < length es"
  then have "int (length (buffer b) + length (take k es)) < maxSize b"
    using assms(2,3) by simp
  from pushAll_below_cap[OF this]
  show "pushAll (take k es) b calls = (b\<lparr>buffer := take k es\<rparr>, calls)"
    using assms(2) by simp
next
  show "flush b calls = ([], b, calls)"
    using assms(2) by (rule flush_empty)
qed

theorem push_maxSize_times_one_flush_witness:
  "flushCallback (onFlush recordBatch (newEventBuffer 2)) = Some recordBatch
   \<and> buffer (onFlush recordBatch (newEventBuffer 2) :: SessionEvent list list EventBuffer) = []
   \<and> int (length [sampleEvent ''a'', sampleEvent ''b'']) = maxSize (onFlush recordBatch (newEventBuffer 2))
   \<and> pushAll [sampleEvent ''a'', sampleEvent ''b''] (onFlush recordBatch (newEventBuffer 2)) []
       = (onFlush recordBatch (newEventBuffer 2), [[sampleEvent ''a'', sampleEvent ''b'']])
   \<and> pushAll [sampleEvent ''a''] (onFlush recordBatch (newEventBuffer 2)) []
       = ((onFlush recordBatch (newEventBuffer 2))\<lparr>buffer := [sampleEvent ''a'']\<rparr>, [])
   \<and> flush (onFlush recordBatch (newEventBuffer 2)) [] = ([], onFlush recordBatch (newEventBuffer 2), [])"
proof -
  let ?b = "onFlush recordBatch (newEventBuffer 2) :: SessionEvent list list EventBuffer"
  let ?es = "[sampleEvent ''a'', sampleEvent ''b'']"
  have h1: "flushCallback ?b = Some recordBatch" by (simp add: onFlush_def)
  have h2: "buffer ?b = []" by (simp add: onFlush_def newEventBuffer_def)
  have h3: "int (length ?es) = maxSize ?b" by (simp add: onFlush_def newEventBuffer_def)
  have h4: "0 < maxSize ?b" by (simp add: onFlush_def newEventBuffer_def)
  note r = push_maxSize_times_one_flush[OF h1 h2 h3 h4, of "[]"]
  from r have "\<forall>k < length ?es. pushAll (take k ?es) ?b [] = (?b\<lparr>buffer := take k ?es\<rparr>, [])"
    by blast
  then have "1 < length ?es \<longrightarrow> pushAll (take 1 ?es) ?b [] = (?b\<lparr>buffer := take 1 ?es\<rparr>, [])"
    by (rule spec)
  then have one: "pushAll [sampleEvent ''a''] ?b [] = (?b\<lparr>buffer := [sampleEvent ''a'']\<rparr>, [])"
    by (simp del: pushAll.simps)
  from r have "pushAll ?es ?b [] = (?b, [] @ [?es])" and "flush ?b [] = ([], ?b, [])"
    by blast+
  with one h1 h2 h3 show ?thesis by (simp del: pushAll.simps)
qed

section \<open>SessionManager: one active session\<close>

lemma flush_wired:
  "flushCallback b = Some attributeToCurrent \<Longrightarrow>
   flush b (Some s) = (buffer b, b\<lparr>buffer := []\<rparr>, Some (s\<lparr>events := events s @ buffer b\<rparr>))"
  by (simp add: flush_def Let_def attributeToCurrent_def)

lemma push_wired:
  "flushCallback b = Some attributeToCurrent \<Longrightarrow>
   push e b (Some s) =
     (if maxSize b \<le> int (length (buffer b)) + 1
      then (b\<lparr>buffer := []\<rparr>, Some (s\<lparr>events := events s @ buffer b @ [e]\<rparr>))
      else (b\<lparr>buffer := buffer b @ [e]\<rparr>, Some s))"
  by (simp add: push_def flush_def Let_def attributeToCurrent_def)

lemma flushEventBuffer_wired:
  "wired m \<Longrightarrow> currentSession m = Some s \<Longrightarrow>
   flushEventBuffer m =
     m\<lparr>eventBuffer := (eventBuffer m)\<lparr>buffer := []\<rparr>,
       currentSession := Some (s\<lparr>events := events s @ buffer (eventBuffer m)\<rparr>)\<rparr>"
  by (simp add: flushEventBuffer_def wired_def flush_wired)

lemma startSession_idle:
  "currentSession m = None \<Longrightarrow>
   snd (startSession ctx m) =
     m\<lparr>currentSession := Some (fst (startSession ctx m)),
       lastActivityTime := now ctx,
       sessionTimeoutTimer := Some (now ctx + timerDelay (sessionTimeoutMinutes ctx * 60 * 1000)),
       messages := messages m @ [''Log Close: Session started'']\<rparr>"
  by (simp add: startSession_def Let_def resetSessionTimeout_def)

lemma startSession_new:
  "fst (startSession ctx m) =
     \<lparr>id_session = generatedId ctx, startTime = DateObj (now ctx), endTime = None,
      workspacePath = workspaceFolder ctx, events = [], summary = None,
      tasks = [], issues = [], isActive = True\<rparr>"
  by (simp add: startSession_def Let_def)

lemma endSession_wired:
  assumes "wired m" and "currentSession m = Some s"
  shows "endSession ctx m =
     (Some (s\<lparr>events := events s @ buffer (eventBuffer m),
              endTime := Some (DateObj (now ctx)), isActive := False\<rparr>),
      m\<lparr>eventBuffer := (eventBuffer m)\<lparr>buffer := []\<rparr>,
        sessions := sessions m @ [s\<lparr>events := events s @ buffer (eventBuffer m),
                                    endTime := Some (DateObj (now ctx)), isActive := False\<rparr>],
        sessionTimeoutTimer := None,
        sessionEndCalls := sessionEndCalls m @
           map (\<lambda>cb. (cb, s\<lparr>events := events s @ buffer (eventBuffer m),
                               endTime := Some (DateObj (now ctx)), isActive := False\<rparr>))
             (onSessionEndCallbacks m),
        messages := messages m @ [''Log Close: Session ended''],
        currentSession := None\<rparr>)"
  using assms by (simp add: endSession_def flushEventBuffer_wired Let_def)

lemma addEvent_wired:
  assumes "wired m"
  shows "wired (addEvent ctx e m)"
    and "sessions (addEvent ctx e m) = sessions m"
    and "attributed (addEvent ctx e m) = attributed m @ [e]"
    and "currentSession (addEvent ctx e m) \<noteq> None"
    and "lifecycleInv m \<Longrightarrow> lifecycleInv (addEvent ctx e m)"
  using assms
  by (auto simp: addEvent_def Let_def wired_def startSession_idle startSession_new
      resetSessionTimeout_def push_wired attributed_def lifecycleInv_def
      split: option.splits prod.splits if_splits)

lemma addEvents_wired:
  assumes "wired m"
  shows "wired (addEvents ces m)"
    and "sessions (addEvents ces m) = sessions m"
    and "attributed (addEvents ces m) = attributed m @ map snd ces"
    and "lifecycleInv m \<Longrightarrow> lifecycleInv (addEvents ces m)"
    and "ces \<noteq> [] \<Longrightarrow> currentSession (addEvents ces m) \<noteq> None"
  using assms
proof (induction ces arbitrary: m)
  case Nil
  {
    case 1 then show ?case by simp
  next
    case 2 then show ?case by simp
  next
    case 3 then show ?case by simp
  next
    case 4 then show ?case by simp
  next
    case 5 then show ?case by simp
  }
next
  case (Cons ce ces)
  obtain ctx e where ce: "ce = (ctx, e)" by (cases ce)
  {
    case 1
    then show ?case using Cons.IH(1)[of "addEvent ctx e m"] addEvent_wired(1) ce by simp
  next
    case 2
    then show ?case using Cons.IH(2)[of "addEvent ctx e m"] addEvent_wired(1,2) ce by simp
  next
    case 3
    then show ?case using Cons.IH(3)[of "addEvent ctx e m"] addEvent_wired(1,3) ce by simp
  next
    case 4
    then show ?case using Cons.IH(4)[of "addEvent ctx e m"] addEvent_wired(1,5) ce by simp
  next
    case 5
    show ?case
    proof (cases ces)
      case Nil
      then show ?thesis using addEvent_wired(4)[OF 5(2)] ce by simp
    next
      case (Cons a list)
      then show ?thesis using Cons.IH(5)[of "addEvent ctx e m"] addEvent_wired(1)[OF 5(2)] ce by simp
    qed
  }
qed

lemma active_sessions_of_inv:
  "lifecycleInv m \<Longrightarrow>
   filter isActive (allSessions m) = (case currentSession m of None \<Rightarrow> [] | Some s \<Rightarrow> [s])"
proof -
  assume inv: "lifecycleInv m"
  then have "\<forall>s \<in> set (sessions m). \<not> isActive s"
    by (simp add: lifecycleInv_def list_all_iff)
  then have "filter isActive (sessions m) = []"
    by (simp add: filter_empty_conv)
  with inv show ?thesis
    by (auto simp: allSessions_def lifecycleInv_def split: option.splits)
qed

text \<open>
  Claim C1. A manager set up by the constructor, in whose history no session is active
  and whose current session (if there is one) is active, takes any run of \<open>addEvent\<close>
  calls with no \<open>endSession\<close> between them. Afterwards at most one of the sessions it
  holds is active and the history is as before; when at least one event was added,
  exactly one session is active, it is the current one, and after the next flush of the
  buffer its events list is the events taken in before the run followed by the added
  events in call order.
\<close>

theorem addEvent_run_one_active_session:
  assumes "wired m" and "lifecycleInv m"
  shows "length (filter isActive (allSessions (addEvents ces m))) \<le> 1
       \<and> sessions (addEvents ces m) = sessions m
       \<and> (ces \<noteq> [] \<longrightarrow>
            (\<exists>s. currentSession (flushEventBuffer (addEvents ces m)) = Some s
                 \<and> filter isActive (allSessions (flushEventBuffer (addEvents ces m))) = [s]
                 \<and> events s = attributed m @ map snd ces
                 \<and> buffer (eventBuffer (flushEventBuffer (addEvents ces m))) = []))"
proof (intro conjI impI)
  let ?m' = "addEvents ces m"
  have w': "wired ?m'" and inv': "lifecycleInv ?m'"
    using assms addEvents_wired(1,4) by blast+
  show "length (filter isActive (allSessions ?m')) \<le> 1"
    using active_sessions_of_inv[OF inv'] by (simp split: option.splits)
  show "sessions ?m' = sessions m"
    using assms(1) by (rule addEvents_wired(2))
  assume ne: "ces \<noteq> []"
  then obtain s where cur: "currentSession ?m' = Some s"
    using addEvents_wired(5)[OF assms(1)] by blast
  let ?s' = "s\<lparr>events := events s @ buffer (eventBuffer ?m')\<rparr>"
  have fl: "flushEventBuffer ?m' =
      ?m'\<lparr>eventBuffer := (eventBuffer ?m')\<lparr>buffer := []\<rparr>, currentSession := Some ?s'\<rparr>"
    using w' cur by (rule flushEventBuffer_wired)
  have att: "events ?s' = attributed m @ map snd ces"
    using addEvents_wired(3)[OF assms(1), of ces] cur by (simp add: attributed_def)
  have inv'': "lifecycleInv (flushEventBuffer ?m')"
    using inv' cur unfolding fl by (simp add: lifecycleInv_def)
  have "filter isActive (allSessions (flushEventBuffer ?m')) = [?s']"
    using active_sessions_of_inv[OF inv''] unfolding fl by simp
  then show "\<exists>s. currentSession (flushEventBuffer ?m') = Some s
                 \<and> filter isActive (allSessions (flushEventBuffer ?m')) = [s]
                 \<and> events s = attributed m @ map snd ces
                 \<and> buffer (eventBuffer (flushEventBuffer ?m')) = []"
    using att unfolding fl by simp
qed

theorem addEvent_run_one_active_session_witness:
  "wired (newSessionManager 0) \<and> lifecycleInv (newSessionManager 0)
   \<and> length (filter isActive (allSessions
         (addEvents [(sampleCtx 5, sampleEvent ''a''), (sampleCtx 6, sampleEvent ''b'')]
            (newSessionManager 0)))) \<le> 1
   \<and> (\<exists>s. currentSession (flushEventBuffer
              (addEvents [(sampleCtx 5, sampleEvent ''a''), (sampleCtx 6, sampleEvent ''b'')]
                 (newSessionManager 0))) = Some s
          \<and> events s = [sampleEvent ''a'', sampleEvent ''b''])"
proof -
  let ?m = "newSessionManager 0"
  let ?ces = "[(sampleCtx 5, sampleEvent ''a''), (sampleCtx 6, sampleEvent ''b'')]"
  have h1: "wired ?m"
    by (simp add: wired_def newSessionManager_def onFlush_def newEventBuffer_def)
  have h2: "lifecycleInv ?m"
    by (simp add: lifecycleInv_def newSessionManager_def)
  have a: "attributed ?m = []"
    by (simp add: attributed_def newSessionManager_def onFlush_def newEventBuffer_def)
  from addEvent_run_one_active_session[OF h1 h2, of ?ces] a h1 h2
  show ?thesis by (auto simp del: addEvents.simps)
qed

section \<open>SessionManager: the invariant is kept\<close>

lemma newSessionManager_inv: "wired (newSessionManager t) \<and> lifecycleInv (newSessionManager t)"
  by (simp add: wired_def lifecycleInv_def newSessionManager_def onFlush_def newEventBuffer_def)

lemma endSession_inv:
  assumes "wired m" and "lifecycleInv m"
  shows "wired (snd (endSession ctx m)) \<and> lifecycleInv (snd (endSession ctx m))"
proof (cases "currentSession m")
  case None
  then show ?thesis using assms by (simp add: endSession_def)
next
  case (Some s)
  show ?thesis
    using assms unfolding endSession_wired[OF assms(1) Some]
    by (simp add: wired_def lifecycleInv_def)
qed

lemma startSession_inv:
  assumes "wired m" and "lifecycleInv m"
  shows "wired (snd (startSession ctx m)) \<and> lifecycleInv (snd (startSession ctx m))"
proof (cases "currentSession m")
  case None
  then show ?thesis
    using assms by (simp add: startSession_idle startSession_new wired_def lifecycleInv_def)
next
  case (Some s)
  then have act: "isActive s" using assms(2) by (simp add: lifecycleInv_def)
  have "wired (snd (endSession ctx m)) \<and> lifecycleInv (snd (endSession ctx m))"
    using assms by (rule endSession_inv)
  then show ?thesis
    using Some act
    by (simp add: startSession_def Let_def resetSessionTimeout_def wired_def lifecycleInv_def)
qed

lemma sessionTimeoutFires_inv:
  assumes "wired m" and "lifecycleInv m"
  shows "wired (sessionTimeoutFires ctx m) \<and> lifecycleInv (sessionTimeoutFires ctx m)"
proof -
  have "wired (snd (endSession ctx (m\<lparr>sessionTimeoutTimer := None,
           messages := messages m @ [''Log Close: Session ended due to inactivity'']\<rparr>)))
      \<and> lifecycleInv (snd (endSession ctx (m\<lparr>sessionTimeoutTimer := None,
           messages := messages m @ [''Log Close: Session ended due to inactivity'']\<rparr>)))"
    using assms by (intro endSession_inv) (simp_all add: wired_def lifecycleInv_def)
  then show ?thesis
    using assms
    by (auto simp: sessionTimeoutFires_def Let_def wired_def lifecycleInv_def
        split: option.splits)
qed

lemma addTask_inv:
  "wired m \<Longrightarrow> lifecycleInv m \<Longrightarrow>
   wired (snd (addTask ctx t m)) \<and> lifecycleInv (snd (addTask ctx t m))"
  by (auto simp: addTask_def Let_def wired_def lifecycleInv_def split: option.splits)

lemma addIssue_inv:
  "wired m \<Longrightarrow> lifecycleInv m \<Longrightarrow>
   wired (snd (addIssue ctx i m)) \<and> lifecycleInv (snd (addIssue ctx i m))"
  by (auto simp: addIssue_def Let_def wired_def lifecycleInv_def split: option.splits)

lemma updateFirst_inactive:
  "list_all (\<lambda>s. \<not> isActive s) ss \<Longrightarrow> list_all (\<lambda>s. \<not> isActive s) (updateFirst sid sm ss)"
  by (induction ss) auto

lemma updateSummary_inv:
  "wired m \<Longrightarrow> lifecycleInv m \<Longrightarrow>
   wired (updateSummary sid sm m) \<and> lifecycleInv (updateSummary sid sm m)"
  by (auto simp: updateSummary_def Let_def wired_def lifecycleInv_def updateFirst_inactive
      split: option.splits)

lemma dispose_inv:
  assumes "wired m" and "lifecycleInv m"
  shows "wired (dispose ctx m) \<and> lifecycleInv (dispose ctx m)"
proof -
  have "wired (snd (endSession ctx (m\<lparr>sessionTimeoutTimer := None\<rparr>)))
      \<and> lifecycleInv (snd (endSession ctx (m\<lparr>sessionTimeoutTimer := None\<rparr>)))"
    using assms by (intro endSession_inv) (simp_all add: wired_def lifecycleInv_def)
  then show ?thesis
    using assms
    by (auto simp: dispose_def Let_def wired_def lifecycleInv_def split: option.splits)
qed

lemma observers_inv:
  "wired m \<Longrightarrow> lifecycleInv m \<Longrightarrow>
   wired (onSessionEnd cb m) \<and> lifecycleInv (onSessionEnd cb m)
   \<and> wired (onEvent cb m) \<and> lifecycleInv (onEvent cb m)"
  by (simp add: onSessionEnd_def onEvent_def wired_def lifecycleInv_def)

lemma loadSessions_inv:
  "wired m \<Longrightarrow> lifecycleInv m \<Longrightarrow> list_all (\<lambda>s. \<not> isActive s) ss \<Longrightarrow>
   wired (loadSessions ss m) \<and> lifecycleInv (loadSessions ss m)"
  by (simp add: loadSessions_def wired_def lifecycleInv_def)

section \<open>SessionManager: starting, ending, fail-soft additions\<close>

text \<open>
  Claim C3. \<open>startSession\<close> is called while the current session \<open>s\<close> is active. It first
  does what \<open>endSession\<close> does: the prior session takes the buffered events, gets the
  current instant as end time, is no longer active and is appended to the history, the
  end-of-session observers are told, and no session is current. Only from that state
  the new session is made: \<open>startSession\<close> on the active manager is \<open>startSession\<close> on
  the manager that \<open>endSession\<close> left. The new session has the generated id, the current
  instant as start time and is active; it is the current session, and the prior session
  ended at the instant the new one starts, so the two do not overlap.
\<close>

theorem startSession_while_active_ends_first:
  assumes "wired m" and "currentSession m = Some s" and "isActive s"
  shows "fst (endSession ctx m)
           = Some (s\<lparr>events := events s @ buffer (eventBuffer m),
                     endTime := Some (DateObj (now ctx)), isActive := False\<rparr>)
       \<and> currentSession (snd (endSession ctx m)) = None
       \<and> sessions (snd (endSession ctx m))
           = sessions m @ [s\<lparr>events := events s @ buffer (eventBuffer m),
                              endTime := Some (DateObj (now ctx)), isActive := False\<rparr>]
       \<and> startSession ctx m = startSession ctx (snd (endSession ctx m))
       \<and> sessions (snd (startSession ctx m)) = sessions (snd (endSession ctx m))
       \<and> currentSession (snd (startSession ctx m)) = Some (fst (startSession ctx m))
       \<and> id_session (fst (startSession ctx m)) = generatedId ctx
       \<and> startTime (fst (startSession ctx m)) = DateObj (now ctx)
       \<and> endTime (fst (startSession ctx m)) = None
       \<and> events (fst (startSession ctx m)) = []
       \<and> isActive (fst (startSession ctx m))"
proof -
  note e = endSession_wired[OF assms(1,2), of ctx]
  have idle: "currentSession (snd (endSession ctx m)) = None"
    unfolding e by simp
  have same: "startSession ctx m = startSession ctx (snd (endSession ctx m))"
    using assms(2,3) idle by (simp add: startSession_def Let_def)
  have hist: "sessions (snd (startSession ctx m)) = sessions (snd (endSession ctx m))"
    unfolding same using startSession_idle[OF idle, of ctx] by simp
  have cur: "currentSession (snd (startSession ctx m)) = Some (fst (startSession ctx m))"
    using startSession_idle[OF idle, of ctx] same by simp
  show ?thesis
    using idle same hist cur unfolding startSession_new by (simp add: e)
qed

theorem startSession_while_active_ends_first_witness:
  "wired (snd (startSession (sampleCtx 5) (newSessionManager 0)))
   \<and> currentSession (snd (startSession (sampleCtx 5) (newSessionManager 0)))
       = Some (fst (startSession (sampleCtx 5) (newSessionManager 0)))
   \<and> isActive (fst (startSession (sampleCtx 5) (newSessionManager 0)))
   \<and> sessions (snd (startSession (sampleCtx 9) (snd (startSession (sampleCtx 5) (newSessionManager 0)))))
       = [(fst (startSession (sampleCtx 5) (newSessionManager 0)))
            \<lparr>endTime := Some (DateObj 9), isActive := False\<rparr>]
   \<and> startTime (fst (startSession (sampleCtx 9) (snd (startSession (sampleCtx 5) (newSessionManager 0)))))
       = DateObj 9"
proof -
  let ?m = "snd (startSession (sampleCtx 5) (newSessionManager 0))"
  let ?s = "fst (startSession (sampleCtx 5) (newSessionManager 0))"
  have idle: "currentSession (newSessionManager 0) = None"
    by (simp add: newSessionManager_def)
  have h1: "wired ?m"
    using startSession_inv[of "newSessionManager 0" "sampleCtx 5"] newSessionManager_inv[of 0] by simp
  have h2: "currentSession ?m = Some ?s"
    using startSession_idle[OF idle, of "sampleCtx 5"] by simp
  have h3: "isActive ?s"
    by (simp add: startSession_new)
  have b: "buffer (eventBuffer ?m) = []" and ss: "sessions ?m = []"
    using startSession_idle[OF idle, of "sampleCtx 5"]
    by (simp_all add: newSessionManager_def onFlush_def newEventBuffer_def)
  have ev: "events ?s = []"
    by (simp add: startSession_new)
  have n: "now (sampleCtx 9) = 9"
    by (simp add: sampleCtx_def)
  note r = startSession_while_active_ends_first[OF h1 h2 h3, of "sampleCtx 9"]
  from r have A: "sessions (snd (startSession (sampleCtx 9) ?m)) = sessions (snd (endSession (sampleCtx 9) ?m))"
    by blast
  from r have B: "sessions (snd (endSession (sampleCtx 9) ?m))
      = sessions ?m @ [?s\<lparr>events := events ?s @ buffer (eventBuffer ?m),
                             endTime := Some (DateObj (now (sampleCtx 9))), isActive := False\<rparr>]"
    by blast
  from r have C: "startTime (fst (startSession (sampleCtx 9) ?m)) = DateObj (now (sampleCtx 9))"
    by blast
  have D: "?s\<lparr>events := events ?s @ buffer (eventBuffer ?m),
              endTime := Some (DateObj (now (sampleCtx 9))), isActive := False\<rparr>
         = ?s\<lparr>endTime := Some (DateObj 9), isActive := False\<rparr>"
    unfolding b n by (simp add: startSession_new)
  show ?thesis
    unfolding A B C ss using h1 h2 h3 D by (simp add: n)
qed

text \<open>
  Claim C6. With no current session, \<open>addTask\<close> and \<open>addIssue\<close> return null (\<open>None\<close>),
  raise nothing, and leave the manager as it was: the history, the (absent) current
  session and everything else.
\<close>

theorem addTask_addIssue_without_session:
  assumes "currentSession m = None"
  shows "addTask ctx task m = (None, m) \<and> addIssue ctx issue m = (None, m)"
  using assms by (simp add: addTask_def addIssue_def)

theorem addTask_addIssue_without_session_witness:
  "currentSession (newSessionManager 0) = None
   \<and> addTask (sampleCtx 5) \<lparr>task_description = ''write tests'', task_status = pending,
                              task_completedAt = None\<rparr> (newSessionManager 0)
       = (None, newSessionManager 0)
   \<and> addIssue (sampleCtx 5) \<lparr>issue_description = ''build failed'', issue_resolution = None,
                               issue_resolved = False, issue_resolvedAt = None\<rparr> (newSessionManager 0)
       = (None, newSessionManager 0)"
proof -
  have h: "currentSession (newSessionManager 0) = None"
    by (simp add: newSessionManager_def)
  from addTask_addIssue_without_session[OF h] h show ?thesis
    by blast
qed

text \<open>
  Claim C10. With no current session, \<open>endSession\<close> returns null (\<open>None\<close>) and changes
  nothing: the manager after the call is the manager before it, so the history is
  unchanged, the buffer still holds its events and no flush callback ran, and no
  end-of-session observer was invoked.
\<close>

theorem endSession_without_session:
  assumes "currentSession m = None"
  shows "endSession ctx m = (None, m)
       \<and> sessions (snd (endSession ctx m)) = sessions m
       \<and> buffer (eventBuffer (snd (endSession ctx m))) = buffer (eventBuffer m)
       \<and> sessionEndCalls (snd (endSession ctx m)) = sessionEndCalls m"
  using assms by (simp add: endSession_def)

theorem endSession_without_session_witness:
  "currentSession (onSessionEnd ''save'' (newSessionManager 0)) = None
   \<and> endSession (sampleCtx 5) (onSessionEnd ''save'' (newSessionManager 0))
       = (None, onSessionEnd ''save'' (newSessionManager 0))
   \<and> sessionEndCalls (snd (endSession (sampleCtx 5) (onSessionEnd ''save'' (newSessionManager 0)))) = []"
proof -
  have h: "currentSession (onSessionEnd ''save'' (newSessionManager 0)) = None"
    by (simp add: newSessionManager_def onSessionEnd_def)
  from endSession_without_session[OF h, of "sampleCtx 5"] h show ?thesis
    by (simp add: newSessionManager_def onSessionEnd_def)
qed

section \<open>SessionManager: inactivity timeout\<close>

lemma startSession_activity:
  "lastActivityTime (snd (startSession ctx m)) = now ctx
   \<and> sessionTimeoutTimer (snd (startSession ctx m))
       = Some (now ctx + timerDelay (sessionTimeoutMinutes ctx * 60 * 1000))
   \<and> currentSession (snd (startSession ctx m)) = Some (fst (startSession ctx m))"
  by (simp add: startSession_def Let_def resetSessionTimeout_def)

lemma addEvent_activity:
  "lastActivityTime (addEvent ctx e m) = now ctx
   \<and> sessionTimeoutTimer (addEvent ctx e m)
       = Some (now ctx + timerDelay (sessionTimeoutMinutes ctx * 60 * 1000))"
  by (simp add: addEvent_def Let_def resetSessionTimeout_def split: prod.splits)

lemma sessionTimeoutFires_early:
  "sessionTimeoutTimer m = Some due \<Longrightarrow> now ctx < due \<Longrightarrow> sessionTimeoutFires ctx m = m"
  by (simp add: sessionTimeoutFires_def)

lemma sessionTimeoutFires_due:
  assumes "wired m" and "currentSession m = Some s" and "isActive s"
    and "sessionTimeoutTimer m = Some due" and "due \<le> now ctx"
  shows "currentSession (sessionTimeoutFires ctx m) = None
       \<and> sessionTimeoutTimer (sessionTimeoutFires ctx m) = None
       \<and> sessions (sessionTimeoutFires ctx m)
           = sessions m @ [s\<lparr>events := events s @ buffer (eventBuffer m),
                              endTime := Some (DateObj (now ctx)), isActive := False\<rparr>]"
proof -
  let ?m1 = "m\<lparr>sessionTimeoutTimer := None,
               messages := messages m @ [''Log Close: Session ended due to inactivity'']\<rparr>"
  have w1: "wired ?m1" and c1: "currentSession ?m1 = Some s"
    using assms(1,2) by (simp_all add: wired_def)
  have "sessionTimeoutFires ctx m = snd (endSession ctx ?m1)"
    using assms(2-5) by (simp add: sessionTimeoutFires_def Let_def)
  then show ?thesis
    unfolding endSession_wired[OF w1 c1] by simp
qed

text \<open>
  Claim C7. The configured timeout is 10 minutes. An activity call (\<open>addEvent\<close> or
  \<open>startSession\<close>) at instant \<open>now ctx\<close> records that instant as the last activity and
  arms the timer anew, due 600000 ms later, with an active current session. With no
  further call, a turn of the event loop before the due instant changes nothing; at or
  after it the timer's callback ends the session: no session is current, the session is
  the last of the history, inactive, with the instant the callback ran as end time,
  which is the last activity plus 10 minutes when the callback runs on time. Ending the
  session by hand cancels the timer.
\<close>

theorem inactivity_timeout_ten_minutes:
  assumes "wired m" and "lifecycleInv m" and "sessionTimeoutMinutes ctx = 10"
    and "m' = addEvent ctx e m \<or> m' = snd (startSession ctx m)"
  shows "lastActivityTime m' = now ctx
       \<and> sessionTimeoutTimer m' = Some (lastActivityTime m' + 600000)
       \<and> (\<exists>s. currentSession m' = Some s \<and> isActive s)
       \<and> (now later < lastActivityTime m' + 600000 \<longrightarrow> sessionTimeoutFires later m' = m')
       \<and> (lastActivityTime m' + 600000 \<le> now later \<longrightarrow>
             currentSession (sessionTimeoutFires later m') = None
           \<and> sessionTimeoutTimer (sessionTimeoutFires later m') = None
           \<and> butlast (sessions (sessionTimeoutFires later m')) = sessions m'
           \<and> map_option id_session (currentSession m')
               = Some (id_session (last (sessions (sessionTimeoutFires later m'))))
           \<and> endTime (last (sessions (sessionTimeoutFires later m'))) = Some (DateObj (now later))
           \<and> \<not> isActive (last (sessions (sessionTimeoutFires later m'))))
       \<and> sessionTimeoutTimer (snd (endSession later m')) = None"
proof -
  have d: "timerDelay (sessionTimeoutMinutes ctx * 60 * 1000) = 600000"
    using assms(3) by (simp add: timerDelay_def)
  have act: "lastActivityTime m' = now ctx" and tm: "sessionTimeoutTimer m' = Some (now ctx + 600000)"
    using assms(4) addEvent_activity[of ctx e m] startSession_activity[of ctx m] d by auto
  have w': "wired m'" and inv': "lifecycleInv m'"
    using assms(1,2,4) addEvent_wired(1,5)[of m ctx e] startSession_inv[of m ctx] by auto
  have "currentSession m' \<noteq> None"
    using assms(1,4) addEvent_wired(4)[of m ctx e] startSession_activity[of ctx m] by auto
  then obtain s where cur: "currentSession m' = Some s"
    by auto
  then have s: "isActive s"
    using inv' by (simp add: lifecycleInv_def)
  have early: "now later < lastActivityTime m' + 600000 \<longrightarrow> sessionTimeoutFires later m' = m'"
    using sessionTimeoutFires_early[of m' "now ctx + 600000" later] tm act by simp
  have due: "lastActivityTime m' + 600000 \<le> now later \<longrightarrow>
             currentSession (sessionTimeoutFires later m') = None
           \<and> sessionTimeoutTimer (sessionTimeoutFires later m') = None
           \<and> butlast (sessions (sessionTimeoutFires later m')) = sessions m'
           \<and> map_option id_session (currentSession m')
               = Some (id_session (last (sessions (sessionTimeoutFires later m'))))
           \<and> endTime (last (sessions (sessionTimeoutFires later m'))) = Some (DateObj (now later))
           \<and> \<not> isActive (last (sessions (sessionTimeoutFires later m')))"
  proof
    assume "lastActivityTime m' + 600000 \<le> now later"
    then have "now ctx + 600000 \<le> now later"
      using act by simp
    from sessionTimeoutFires_due[OF w' cur s tm this] cur
    show "currentSession (sessionTimeoutFires later m') = None
           \<and> sessionTimeoutTimer (sessionTimeoutFires later m') = None
           \<and> butlast (sessions (sessionTimeoutFires later m')) = sessions m'
           \<and> map_option id_session (currentSession m')
               = Some (id_session (last (sessions (sessionTimeoutFires later m'))))
           \<and> endTime (last (sessions (sessionTimeoutFires later m'))) = Some (DateObj (now later))
           \<and> \<not> isActive (last (sessions (sessionTimeoutFires later m')))"
      by simp
  qed
  have cancel: "sessionTimeoutTimer (snd (endSession later m')) = None"
    unfolding endSession_wired[OF w' cur] by simp
  show ?thesis
    using act tm cur s early due cancel by simp
qed

theorem inactivity_timeout_ten_minutes_witness:
  "wired (newSessionManager 0) \<and> lifecycleInv (newSessionManager 0)
   \<and> sessionTimeoutMinutes (sampleCtx 1000) = 10
   \<and> sessionTimeoutTimer (addEvent (sampleCtx 1000) (sampleEvent ''a'') (newSessionManager 0))
       = Some 601000
   \<and> sessionTimeoutFires (sampleCtx 600999) (addEvent (sampleCtx 1000) (sampleEvent ''a'') (newSessionManager 0))
       = addEvent (sampleCtx 1000) (sampleEvent ''a'') (newSessionManager 0)
   \<and> currentSession (sessionTimeoutFires (sampleCtx 601000)
         (addEvent (sampleCtx 1000) (sampleEvent ''a'') (newSessionManager 0))) = None
   \<and> endTime (last (sessions (sessionTimeoutFires (sampleCtx 601000)
         (addEvent (sampleCtx 1000) (sampleEvent ''a'') (newSessionManager 0)))))
       = Some (DateObj 601000)"
proof -
  let ?m' = "addEvent (sampleCtx 1000) (sampleEvent ''a'') (newSessionManager 0)"
  have h1: "wired (newSessionManager 0)" and h2: "lifecycleInv (newSessionManager 0)"
    using newSessionManager_inv[of 0] by simp_all
  have h3: "sessionTimeoutMinutes (sampleCtx 1000) = 10"
    by (simp add: sampleCtx_def)
  have h4: "?m' = addEvent (sampleCtx 1000) (sampleEvent ''a'') (newSessionManager 0)
          \<or> ?m' = snd (startSession (sampleCtx 1000) (newSessionManager 0))"
    by simp
  have n: "now (sampleCtx 1000) = 1000" "now (sampleCtx 600999) = 600999" "now (sampleCtx 601000) = 601000"
    by (simp_all add: sampleCtx_def)
  note r = inactivity_timeout_ten_minutes[OF h1 h2 h3 h4]
  have la: "lastActivityTime ?m' = 1000"
    using r[of "sampleCtx 0"] n by simp
  have t: "sessionTimeoutTimer ?m' = Some 601000"
    using r[of "sampleCtx 0"] la by simp
  have early: "sessionTimeoutFires (sampleCtx 600999) ?m' = ?m'"
    using r[of "sampleCtx 600999"] la n by simp
  have due: "currentSession (sessionTimeoutFires (sampleCtx 601000) ?m') = None
      \<and> endTime (last (sessions (sessionTimeoutFires (sampleCtx 601000) ?m'))) = Some (DateObj 601000)"
    using r[of "sampleCtx 601000"] la n by simp
  show ?thesis
    using h1 h2 h3 t early due by simp
qed

section \<open>SessionManager: today's sessions\<close>

lemma notBefore_DateObj: "notBefore d midnight \<longleftrightarrow> (\<exists>t. d = DateObj t \<and> midnight \<le> t)"
  by (cases d) (simp_all add: notBefore_def)

lemma withinDay_notBefore: "withinDay d midnight \<Longrightarrow> notBefore d midnight"
  by (simp add: withinDay_def notBefore_def split: jsdate.splits)

text \<open>The query keeps, in history order, the sessions whose start is a date at or after
  the start of the local day; the sessions of the day are all among them, in order.\<close>

lemma getTodaySessions_filter:
  "getTodaySessions ctx m
     = filter (\<lambda>s. \<exists>t. startTime s = DateObj t \<and> startOfLocalDay ctx (now ctx) \<le> t) (sessions m)"
  by (simp add: getTodaySessions_def Let_def notBefore_DateObj)

lemma getTodaySessions_contains_today:
  "filter (\<lambda>s. withinDay (startTime s) (startOfLocalDay ctx (now ctx))) (getTodaySessions ctx m)
     = todaySessions_spec ctx m"
  unfolding getTodaySessions_def todaySessions_spec_def Let_def filter_filter
  by (rule filter_cong) (auto dest: withinDay_notBefore)

text \<open>
  Claim C9 on the code. It is 2023-11-14 22:13:20 UTC on a host in the zone UTC. The
  history, as \<open>loadSessions\<close> received it from the store, holds a session that started on
  the day before (\<open>s1\<close>), one that started earlier on the current day (\<open>s2\<close>) and one
  stamped on 2023-11-17 (\<open>s3\<close>; its file was written while the clock was ahead). The
  sessions whose start falls in the current local calendar day, from local midnight to
  24 hours later, are \<open>s2\<close> alone. The query returns \<open>s2\<close> and \<open>s3\<close>: it compares the
  start with local midnight only and has no bound at the end of the day.
\<close>

theorem getTodaySessions_returns_session_of_later_day:
  "startOfLocalDay (sampleCtx 1700000000000) (now (sampleCtx 1700000000000)) = 1699920000000
   \<and> todaySessions_spec (sampleCtx 1700000000000)
        (loadSessions [sampleSession ''s1'' 1699900000000, sampleSession ''s2'' 1699990000000,
                       sampleSession ''s3'' 1700200000000] (newSessionManager 0))
       = [sampleSession ''s2'' 1699990000000]
   \<and> getTodaySessions (sampleCtx 1700000000000)
        (loadSessions [sampleSession ''s1'' 1699900000000, sampleSession ''s2'' 1699990000000,
                       sampleSession ''s3'' 1700200000000] (newSessionManager 0))
       = [sampleSession ''s2'' 1699990000000, sampleSession ''s3'' 1700200000000]"
proof -
  have mid: "startOfLocalDay (sampleCtx 1700000000000) (now (sampleCtx 1700000000000)) = 1699920000000"
    by (simp add: sampleCtx_def utcMidnight_def)
  have st: "startTime (sampleSession i t) = DateObj t" for i t
    by (simp add: sampleSession_def)
  show ?thesis
    unfolding getTodaySessions_def todaySessions_spec_def Let_def mid
    by (simp add: loadSessions_def st withinDay_def notBefore_def)
qed

section \<open>LocalDb: saving and loading again\<close>

lemma newDate_jsonDate: "isDateObj d \<Longrightarrow> newDate (jsonDate d) = d"
  by (cases d) (simp_all add: newDate_def jsonDate_def isDateObj_def)

lemma newDate_jsonDate_opt: "optDateObj d \<Longrightarrow> map_option (newDate \<circ> jsonDate) d = d"
  by (cases d) (simp_all add: optDateObj_def newDate_jsonDate)

lemma revive_json_events:
  "list_all (\<lambda>e. isDateObj (timestamp e)) es \<Longrightarrow>
   map ((\<lambda>e. e\<lparr>timestamp := newDate (timestamp e)\<rparr>) \<circ> jsonEvent) es = es"
  by (induction es) (simp_all add: jsonEvent_def newDate_jsonDate)

lemma revive_json_tasks:
  "list_all taskDates ts \<Longrightarrow>
   map ((\<lambda>t. t\<lparr>createdAt_task := newDate (createdAt_task t),
                completedAt := map_option newDate (completedAt t)\<rparr>) \<circ> jsonTask) ts = ts"
  by (induction ts)
     (simp_all add: jsonTask_def taskDates_def newDate_jsonDate newDate_jsonDate_opt option.map_comp)

lemma revive_json_issues:
  "list_all issueDates is \<Longrightarrow>
   map ((\<lambda>i. i\<lparr>createdAt_issue := newDate (createdAt_issue i),
                resolvedAt := map_option newDate (resolvedAt i)\<rparr>) \<circ> jsonIssue) is = is"
  by (induction "is")
     (simp_all add: jsonIssue_def issueDates_def newDate_jsonDate newDate_jsonDate_opt option.map_comp)

lemma revive_json_session:
  assumes "sessionDates s" and "\<not> summaryHasIssues s"
  shows "reviveSession (jsonSession s) = s"
proof -
  have sm: "map_option jsonSummary (summary s) = summary s"
    using assms(2) by (cases "summary s") (simp_all add: summaryHasIssues_def jsonSummary_def)
  show ?thesis
    using assms(1) sm
    by (simp add: reviveSession_def jsonSession_def sessionDates_def newDate_jsonDate
        newDate_jsonDate_opt option.map_comp revive_json_events revive_json_tasks
        revive_json_issues)
qed

lemma find_upsert: "find (\<lambda>x. id_session x = id_session s) (upsert s xs) = Some s"
  by (induction xs) simp_all

lemma find_map_same_id:
  assumes "\<And>x. id_session (f x) = id_session x"
  shows "find (\<lambda>x. id_session x = sid) (map f xs) = map_option f (find (\<lambda>x. id_session x = sid) xs)"
  using assms by (induction xs) simp_all

lemma revive_json_id: "id_session (reviveSession (jsonSession x)) = id_session x"
  by (simp add: reviveSession_def jsonSession_def)

lemma saveAndReload_getSession:
  assumes "writable fs"
  shows "getSession (id_session s) (saveAndReload s db fs) = Some (reviveSession (jsonSession s))"
proof -
  have "data (saveAndReload s db fs) = map (\<lambda>x. reviveSession (jsonSession x)) (upsert s (data db))"
    using assms by (simp add: saveAndReload_def saveSession_def save_def newLocalDb_def load_def Let_def)
  then show ?thesis
    by (simp add: getSession_def find_map_same_id[of "\<lambda>x. reviveSession (jsonSession x)", OF revive_json_id]
        find_upsert)
qed

lemma saveAndReload_without_summary_issues:
  assumes "writable fs" and "sessionDates s" and "\<not> summaryHasIssues s"
  shows "getSession (id_session s) (saveAndReload s db fs) = Some s"
  using saveAndReload_getSession[OF assms(1)] revive_json_session[OF assms(2,3)] by simp

text \<open>
  Claim C2 on the code. A finished session whose summary lists a resolved issue, as
  \<open>summarizeSession\<close> builds it (every temporal field a date), is saved to an empty
  store and the store is opened again on the file. The session read back is not the
  session saved: the creation and resolution times of the issue in the summary are
  still the ISO strings of the file. \<open>reviveSession\<close> turns the times of the session, its
  events, its tasks and its issues back into dates and leaves the issues of the
  summary out.
\<close>

theorem saveAndReload_summary_issue_dates_stay_strings:
  "sessionDates summarizedSession
   \<and> getSession ''s1'' (saveAndReload summarizedSession (newLocalDb emptyDisk) emptyDisk)
       = Some (summarizedSession
                \<lparr>summary := Some \<lparr>summary_text = ''work'', tasksCompleted = [],
                    issuesResolved = [sampleIssue\<lparr>createdAt_issue := IsoString 1700000000500,
                                                  resolvedAt := Some (IsoString 1700000000500)\<rparr>],
                    keyConversations = [], filesModified = []\<rparr>\<rparr>)
   \<and> getSession ''s1'' (saveAndReload summarizedSession (newLocalDb emptyDisk) emptyDisk)
       \<noteq> Some summarizedSession"
proof -
  have w: "writable emptyDisk"
    by (simp add: emptyDisk_def)
  have i: "id_session summarizedSession = ''s1''"
    by (simp add: summarizedSession_def sampleSession_def)
  have d: "sessionDates summarizedSession"
    by (simp add: sessionDates_def summarizedSession_def sampleSession_def sampleIssue_def
        isDateObj_def optDateObj_def issueDates_def)
  have r: "reviveSession (jsonSession summarizedSession)
      = summarizedSession
          \<lparr>summary := Some \<lparr>summary_text = ''work'', tasksCompleted = [],
              issuesResolved = [sampleIssue\<lparr>createdAt_issue := IsoString 1700000000500,
                                            resolvedAt := Some (IsoString 1700000000500)\<rparr>],
              keyConversations = [], filesModified = []\<rparr>\<rparr>"
    by (simp add: reviveSession_def jsonSession_def jsonSummary_def jsonIssue_def jsonDate_def
        newDate_def summarizedSession_def sampleSession_def sampleIssue_def)
  have ne: "reviveSession (jsonSession summarizedSession) \<noteq> summarizedSession"
    unfolding r by (simp add: summarizedSession_def sampleSession_def sampleIssue_def)
  from saveAndReload_getSession[OF w, of summarizedSession "newLocalDb emptyDisk"]
  show ?thesis
    using d r ne unfolding i by simp
qed

section \<open>GitSyncer: push and retry\<close>

lemma sync_not_ready:
  "\<not> hasGit g \<or> \<not> isInitialized g \<Longrightarrow> sync g w tr = (Inr False, tr)"
  by (auto simp: sync_def ret_def)

lemma sync_total: "\<exists>b. fst (sync g w tr) = Inr b"
  by (cases "fails w Status"; cases "fails w Add"; cases "fails w Commit";
      cases "fails w PullRebase"; cases "fails w Push"; cases "fails w PushSetUpstream")
     (auto simp: sync_def bind_def tryCatch_def ret_def git_def gitStatus_def showEffect_def)

lemma sync_push_fails:
  assumes "hasGit g" and "isInitialized g" and "\<not> fails w Status" and "0 < changedFiles w"
    and "\<not> fails w Add" and "\<not> fails w Commit" and "fails w Push"
  shows "sync g w tr =
     (Inr (\<not> fails w PushSetUpstream),
      tr @ [Git Status, Git Add, Git Commit, Git PullRebase, Git Push, Git PushSetUpstream]
         @ (if fails w PushSetUpstream
            then [ShowWarning ''Log Close: Could not push to GitHub. Check your repository settings.'']
            else []))"
  using assms
  by (cases "fails w PullRebase"; cases "fails w PushSetUpstream")
     (simp_all add: sync_def bind_def tryCatch_def ret_def git_def gitStatus_def showEffect_def)

text \<open>
  Claim C5. In a run of \<open>sync\<close> that gets as far as the push (the syncer is ready, the
  status shows changes, staging and commit succeed) and whose push fails, the plain push
  was run once and the push that sets the upstream once, right after it; \<open>sync\<close> returns
  true when that second push succeeds and false when it fails too. Whatever the
  collaborator does, \<open>sync\<close> returns a boolean and raises nothing.
\<close>

theorem sync_push_retried_once_with_upstream:
  assumes "hasGit g" and "isInitialized g" and "\<not> fails w Status" and "0 < changedFiles w"
    and "\<not> fails w Add" and "\<not> fails w Commit" and "fails w Push"
  shows "timesRun Push (snd (sync g w [])) = 1
       \<and> timesRun PushSetUpstream (snd (sync g w [])) = 1
       \<and> take 6 (snd (sync g w []))
           = [Git Status, Git Add, Git Commit, Git PullRebase, Git Push, Git PushSetUpstream]
       \<and> (fails w PushSetUpstream \<longrightarrow> fst (sync g w []) = Inr False)
       \<and> (\<not> fails w PushSetUpstream \<longrightarrow> fst (sync g w []) = Inr True)
       \<and> (\<exists>b. fst (sync g' w' tr') = Inr b)"
  using sync_push_fails[OF assms, of "[]"] sync_total[of g' w' tr']
  by (simp add: timesRun_def)

theorem sync_push_retried_once_with_upstream_witness:
  "hasGit readySyncer \<and> isInitialized readySyncer \<and> \<not> fails pushRejected Status
   \<and> 0 < changedFiles pushRejected \<and> \<not> fails pushRejected Add \<and> \<not> fails pushRejected Commit
   \<and> fails pushRejected Push \<and> fails pushRejected PushSetUpstream
   \<and> timesRun Push (snd (sync readySyncer pushRejected [])) = 1
   \<and> timesRun PushSetUpstream (snd (sync readySyncer pushRejected [])) = 1
   \<and> fst (sync readySyncer pushRejected []) = Inr False"
proof -
  have h: "hasGit readySyncer" "isInitialized readySyncer" "\<not> fails pushRejected Status"
    "0 < changedFiles pushRejected" "\<not> fails pushRejected Add" "\<not> fails pushRejected Commit"
    "fails pushRejected Push"
    by (simp_all add: readySyncer_def pushRejected_def)
  have u: "fails pushRejected PushSetUpstream"
    by (simp add: pushRejected_def)
  from sync_push_retried_once_with_upstream[OF h] h u show ?thesis
    by simp
qed

section \<open>GitSyncer: forceSync\<close>

lemma forceSync_result:
  "forceSync g w tr = (Inr True, snd (sync g w (tr @ [WithProgress ''Log Close: Syncing to GitHub...''])))"
  by (simp add: forceSync_def bind_def showEffect_def split: prod.splits)

text \<open>
  Claim C8 on the code. The syncer is ready, there is a change to commit, and the remote
  rejects both pushes. \<open>sync\<close> returns false. \<open>forceSync\<close> runs the same commands under the
  progress notification and returns true.
\<close>

theorem forceSync_true_when_sync_false:
  "fst (sync readySyncer pushRejected []) = Inr False
   \<and> fst (forceSync readySyncer pushRejected []) = Inr True
   \<and> filter (\<lambda>x. x \<noteq> WithProgress ''Log Close: Syncing to GitHub...'')
        (snd (forceSync readySyncer pushRejected []))
       = snd (sync readySyncer pushRejected [])"
proof -
  have h: "hasGit readySyncer" "isInitialized readySyncer" "\<not> fails pushRejected Status"
    "0 < changedFiles pushRejected" "\<not> fails pushRejected Add" "\<not> fails pushRejected Commit"
    "fails pushRejected Push"
    by (simp_all add: readySyncer_def pushRejected_def)
  have u: "fails pushRejected PushSetUpstream"
    by (simp add: pushRejected_def)
  show ?thesis
    unfolding forceSync_result sync_push_fails[OF h] using u by simp
qed

theorem forceSync_true_when_sync_false_witness:
  "hasGit readySyncer \<and> isInitialized readySyncer
   \<and> fst (forceSync readySyncer pushRejected []) \<noteq> fst (sync readySyncer pushRejected [])"
  using forceSync_true_when_sync_false by (simp add: readySyncer_def)

end
